theory Spec2Isabelle
  imports Main
begin

section \<open>Dependency graph of a circuit (create\_dependency.py)\<close>

text \<open>
  \<^verbatim>\<open>gates\<close> holds one tuple \<^verbatim>\<open>(qubit_indices[0], qubit_indices[1])\<close> per two-qubit
  gate, that is (control, target). \<^verbatim>\<open>gates[i][0]\<close> is \<open>fst (gates ! i)\<close> and
  \<^verbatim>\<open>gates[i][1]\<close> is \<open>snd (gates ! i)\<close>.
\<close>

type_synonym gate = "nat \<times> nat"

text \<open>
  The inner loop \<^verbatim>\<open>for j in range(i+1, n)\<close> of lines 73-80, on the adjacency lists
  \<^verbatim>\<open>G\<close>. \<^verbatim>\<open>G[i].append(j)\<close> is \<open>G[i := G ! i @ [j]]\<close>; \<^verbatim>\<open>break\<close> returns.
\<close>

function inner_loop :: "gate list \<Rightarrow> nat \<Rightarrow> nat \<Rightarrow> nat list list \<Rightarrow> nat list list" where
  "inner_loop gates i j G =
     (if j < length gates then
        if snd (gates ! i) = snd (gates ! j) then G[i := G ! i @ [j]]
        else if snd (gates ! i) = fst (gates ! j)
             then inner_loop gates i (Suc j) (G[i := G ! i @ [j]])
             else inner_loop gates i (Suc j) G
      else G)"
  by pat_completeness auto
termination
  by (relation "measure (\<lambda>(gates, i, j, G). length gates - j)") auto

declare inner_loop.simps [simp del]

text \<open>The outer loop \<^verbatim>\<open>for i in range(n-1)\<close> of line 72.\<close>

function outer_loop :: "gate list \<Rightarrow> nat \<Rightarrow> nat list list \<Rightarrow> nat list list" where
  "outer_loop gates i G =
     (if i + 1 < length gates
      then outer_loop gates (Suc i) (inner_loop gates i (i + 1) G)
      else G)"
  by pat_completeness auto
termination
  by (relation "measure (\<lambda>(gates, i, G). length gates - i)") auto

declare outer_loop.simps [simp del]

text \<open>Lines 69-80: \<^verbatim>\<open>G = [[] for _ in range(n)]\<close>, then the two loops.\<close>

definition create_dependency :: "gate list \<Rightarrow> nat list list" where
  "create_dependency gates = outer_loop gates 0 (replicate (length gates) [])"

text \<open>
  The precedence rule as a scan over the candidate indices \<open>js\<close> for a source \<open>i\<close>:
  a candidate whose target is the target of gate \<open>i\<close> gives an edge and ends the scan;
  otherwise a candidate whose control is the target of gate \<open>i\<close> gives an edge and the
  scan goes on.
\<close>

fun first_match_scan :: "gate list \<Rightarrow> nat \<Rightarrow> nat list \<Rightarrow> nat list" where
  "first_match_scan gates i [] = []"
| "first_match_scan gates i (j # js) =
     (if snd (gates ! j) = snd (gates ! i) then [j]
      else if fst (gates ! j) = snd (gates ! i) then j # first_match_scan gates i js
      else first_match_scan gates i js)"

text \<open>
  The rule in the words of the specification: rule 2 compares the target of gate \<open>j\<close>
  with the control of gate \<open>i\<close>.
\<close>

fun spec_scan :: "gate list \<Rightarrow> nat \<Rightarrow> nat list \<Rightarrow> nat list" where
  "spec_scan gates i [] = []"
| "spec_scan gates i (j # js) =
     (if snd (gates ! j) = snd (gates ! i) then [j]
      else if snd (gates ! j) = fst (gates ! i) then j # spec_scan gates i js
      else spec_scan gates i js)"

definition spec_dependency :: "gate list \<Rightarrow> nat list list" where
  "spec_dependency gates =
     map (\<lambda>i. spec_scan gates i [Suc i..<length gates]) [0..<length gates]"


section \<open>The edge-list file\<close>

text \<open>
  Lines 90-93 of create\_dependency.py write one line \<^verbatim>\<open>f"{u} {v}\n"\<close> per edge, sources in
  increasing order and the destinations of a source in the order of its list.
  \<^verbatim>\<open>str\<close> of a non-negative integer is its decimal numeral without leading zeros.
\<close>

definition digit_char :: "nat \<Rightarrow> char" where
  "digit_char d = char_of (48 + d)"

function str_nat :: "nat \<Rightarrow> string" where
  "str_nat n = (if n < 10 then [digit_char n] else str_nat (n div 10) @ [digit_char (n mod 10)])"
  by pat_completeness auto
termination
  by (relation "measure id") auto

declare str_nat.simps [simp del]

definition edge_line :: "nat \<Rightarrow> nat \<Rightarrow> string" where
  "edge_line u v = str_nat u @ [CHR '' ''] @ str_nat v @ [CHR 0x0A]"

definition write_edges :: "(nat \<times> nat) list \<Rightarrow> string" where
  "write_edges es = concat (map (\<lambda>(u, v). edge_line u v) es)"

text \<open>\<^verbatim>\<open>enumerate(G)\<close> pairs every adjacency list with its index.\<close>

definition edge_pairs :: "nat list list \<Rightarrow> (nat \<times> nat) list" where
  "edge_pairs G = concat (map (\<lambda>(u, neigh). map (\<lambda>v. (u, v)) neigh) (zip [0..<length G] G))"

definition write_edgelist :: "nat list list \<Rightarrow> string" where
  "write_edgelist G =
     concat (map (\<lambda>(u, neigh). concat (map (\<lambda>v. edge_line u v) neigh)) (zip [0..<length G] G))"

text \<open>
  Reading (create\_dataset.py). Strings are byte strings here, so the white space of
  \<^verbatim>\<open>str.strip\<close> and \<^verbatim>\<open>str.split\<close> is the ASCII part of Python's: tab, line feed,
  vertical tab, form feed, carriage return, the separators 0x1C-0x1F and the space.
\<close>

datatype py_error = ValueError | IndexError | RuntimeError | FileNotFoundError | OverflowError

definition is_space :: "char \<Rightarrow> bool" where
  "is_space c = (c \<in> set [CHR 0x09, CHR 0x0A, CHR 0x0B, CHR 0x0C, CHR 0x0D,
                           CHR 0x1C, CHR 0x1D, CHR 0x1E, CHR 0x1F, CHR '' ''])"

definition py_strip :: "string \<Rightarrow> string" where
  "py_strip s = rev (dropWhile is_space (rev (dropWhile is_space s)))"

text \<open>\<^verbatim>\<open>s.split()\<close>: the maximal runs of characters that are not white space.\<close>

fun split_from :: "string \<Rightarrow> string \<Rightarrow> string list" where
  "split_from cur [] = (if cur = [] then [] else [cur])"
| "split_from cur (c # cs) =
     (if is_space c then (if cur = [] then split_from [] cs else cur # split_from [] cs)
      else split_from (cur @ [c]) cs)"

definition py_split :: "string \<Rightarrow> string list" where
  "py_split s = split_from [] s"

text \<open>
  \<^verbatim>\<open>for edge in f\<close>: the lines of the text as the file object hands it over (line ends
  already translated to line feeds), each with its line feed when it has one.
\<close>

fun lines_from :: "string \<Rightarrow> string \<Rightarrow> string list" where
  "lines_from cur [] = (if cur = [] then [] else [cur])"
| "lines_from cur (c # cs) =
     (if c = CHR 0x0A then (cur @ [c]) # lines_from [] cs else lines_from (cur @ [c]) cs)"

definition py_lines :: "string \<Rightarrow> string list" where
  "py_lines text = lines_from [] text"

text \<open>
  \<^verbatim>\<open>int(s)\<close> on a string: white space around is dropped, then an optional sign and
  ASCII decimal digits, where single underscores may stand between digits. Anything else
  is a ValueError. \<open>prev\<close> says that the character before was a digit.
\<close>

definition is_digit :: "char \<Rightarrow> bool" where
  "is_digit c = (48 \<le> (of_char c :: nat) \<and> (of_char c :: nat) \<le> 57)"

definition digit_val :: "char \<Rightarrow> nat" where
  "digit_val c = of_char c - 48"

fun int_digits :: "bool \<Rightarrow> nat \<Rightarrow> string \<Rightarrow> nat option" where
  "int_digits prev acc [] = (if prev then Some acc else None)"
| "int_digits prev acc (c # cs) =
     (if is_digit c then int_digits True (10 * acc + digit_val c) cs
      else if c = CHR ''_'' \<and> prev then int_digits False acc cs
      else None)"

definition py_int :: "string \<Rightarrow> py_error + int" where
  "py_int s =
     (case py_strip s of
        [] \<Rightarrow> Inl ValueError
      | c # cs \<Rightarrow>
          if c = CHR ''-'' then
            (case int_digits False 0 cs of None \<Rightarrow> Inl ValueError | Some n \<Rightarrow> Inr (- int n))
          else if c = CHR ''+'' then
            (case int_digits False 0 cs of None \<Rightarrow> Inl ValueError | Some n \<Rightarrow> Inr (int n))
          else
            (case int_digits False 0 (c # cs) of
               None \<Rightarrow> Inl ValueError | Some n \<Rightarrow> Inr (int n)))"

type_synonym edge = "int \<times> int"

text \<open>
  \<^verbatim>\<open>src, dst = map(int, edge.strip().split())\<close>: exactly two fields, each an integer;
  a ValueError otherwise (a blank line has no field).
\<close>

fun unpack_pair :: "(py_error + int) list \<Rightarrow> py_error + edge" where
  "unpack_pair [Inr src, Inr dst] = Inr (src, dst)"
| "unpack_pair _ = Inl ValueError"

text \<open>Lines 79-83: the loop over the lines, with \<^verbatim>\<open>edges.append([src, dst])\<close>.\<close>

fun read_edges_loop :: "edge list \<Rightarrow> string list \<Rightarrow> py_error + edge list" where
  "read_edges_loop edges [] = Inr edges"
| "read_edges_loop edges (edge # rest) =
     (case unpack_pair (map py_int (py_split (py_strip edge))) of
        Inl e \<Rightarrow> Inl e
      | Inr (src, dst) \<Rightarrow> read_edges_loop (edges @ [(src, dst)]) rest)"

definition read_edges :: "string \<Rightarrow> py_error + edge list" where
  "read_edges text = read_edges_loop [] (py_lines text)"


section \<open>The dataset of graph variants (create\_dataset.py)\<close>

text \<open>
  The attributes set by \<^verbatim>\<open>__init__\<close> (lines 31-40): the constructor fixes
  \<^verbatim>\<open>max_num_edge_remove = 2\<close> and \<^verbatim>\<open>num_instances = 10\<close>, and counts the lines of the
  edge file that are not blank.
\<close>

record circuit_dataset =
  max_num_edge_remove :: nat
  num_instances :: nat
  num_edges :: nat

definition init :: "string \<Rightarrow> circuit_dataset" where
  "init edge_text =
     \<lparr>max_num_edge_remove = 2, num_instances = 10,
      num_edges = length (filter (\<lambda>edge. py_strip edge \<noteq> []) (py_lines edge_text))\<rparr>"

text \<open>
  \<^verbatim>\<open>processed_file_names\<close> (lines 58-62). The sum is over Python integers, so a term
  \<^verbatim>\<open>(num_edges - i + 1) * num_instances\<close> is negative when \<open>i > num_edges + 1\<close>;
  \<^verbatim>\<open>range(total)\<close> is empty for \<open>total \<le> 0\<close>. The file \<^verbatim>\<open>{filename}_{ind}.pt\<close> is
  represented by \<open>ind\<close>.
\<close>

definition total :: "circuit_dataset \<Rightarrow> int" where
  "total ds =
     foldl (\<lambda>total i. total + (int (num_edges ds) - int i + 1) * int (num_instances ds))
       (int (num_instances ds)) [1..<max_num_edge_remove ds + 1]"

definition processed_file_names :: "circuit_dataset \<Rightarrow> nat list" where
  "processed_file_names ds = [0..<nat (total ds)]"

definition len :: "circuit_dataset \<Rightarrow> nat" where
  "len ds = length (processed_file_names ds)"

text \<open>
  The node-attribute file as create\_dependency.py writes it: per gate index (a string
  key) the gate's name and its two qubit indices, which are JSON integers.
\<close>

record attrs =
  gate :: string
  qubit_1 :: int
  qubit_2 :: int

text \<open>
  Floating point on integers. The value of a float that comes from an integer is an
  integer again, or an infinity, so such a float is represented by the integer it
  denotes. \<open>round_mantissa p q\<close> is the nearest number to \<open>q\<close> with a mantissa of \<open>p\<close>
  bits, ties to the even mantissa; \<open>bit_length n\<close> is Python's \<^verbatim>\<open>n.bit_length()\<close> for
  \<open>n \<ge> 0\<close>.
\<close>

function bit_length :: "int \<Rightarrow> nat" where
  "bit_length n = (if n \<le> 0 then 0 else Suc (bit_length (n div 2)))"
  by pat_completeness auto
termination
  by (relation "measure nat") auto

declare bit_length.simps [simp del]

definition round_mantissa :: "nat \<Rightarrow> int \<Rightarrow> int" where
  "round_mantissa p q =
     (let a = \<bar>q\<bar>; e = bit_length a - p
      in if e = 0 then q
         else
           (let scaled = a div 2 ^ e; rest = a mod 2 ^ e; half = 2 ^ (e - 1);
                r = (if half < rest \<or> (rest = half \<and> odd scaled) then scaled + 1 else scaled)
                      * 2 ^ e
            in if q < 0 then - r else r))"

text \<open>
  \<^verbatim>\<open>float(q)\<close> of a Python integer (lines 93-94): the nearest double, 53 bits of
  mantissa; an OverflowError when that is beyond the range of a double.
\<close>

definition py_float :: "int \<Rightarrow> py_error + int" where
  "py_float q =
     (let d = round_mantissa 53 q in if 2 ^ 1024 \<le> \<bar>d\<bar> then Inl OverflowError else Inr d)"

text \<open>
  An entry of a tensor of \<^verbatim>\<open>dtype=torch.float\<close> (line 96): the number is stored as the
  nearest 32-bit float, 24 bits of mantissa, and as an infinity beyond the range.
\<close>

datatype float32 = Finite int | PosInf | NegInf

definition to_float32 :: "int \<Rightarrow> float32" where
  "to_float32 d =
     (let f = round_mantissa 24 d
      in if 2 ^ 128 \<le> f then PosInf else if f \<le> - (2 ^ 128) then NegInf else Finite f)"

text \<open>
  Lines 87-96: one row \<^verbatim>\<open>[gate, q1, q2]\<close> per entry, where both branches of line 92 give
  the integer 1 and \<^verbatim>\<open>float\<close> may raise; then the rows become the float tensor.
\<close>

fun node_features_loop ::
  "int list list \<Rightarrow> (string \<times> attrs) list \<Rightarrow> py_error + int list list" where
  "node_features_loop node_features [] = Inr node_features"
| "node_features_loop node_features ((node_id, a) # rest) =
     (let gate = (if gate a = ''cx'' then 1 else 1)
      in case py_float (qubit_1 a) of
           Inl e \<Rightarrow> Inl e
         | Inr q1 \<Rightarrow>
             (case py_float (qubit_2 a) of
                Inl e \<Rightarrow> Inl e
              | Inr q2 \<Rightarrow> node_features_loop (node_features @ [[gate, q1, q2]]) rest))"

definition node_features_of :: "(string \<times> attrs) list \<Rightarrow> py_error + float32 list list" where
  "node_features_of json_data =
     (case node_features_loop [] json_data of
        Inl e \<Rightarrow> Inl e
      | Inr node_features \<Rightarrow> Inr (map (map to_float32) node_features))"

text \<open>
  A persisted sample \<^verbatim>\<open>Data(x = node_features, edge_index = edges, y = label)\<close>. The
  edge tensor is the list of its columns; the label tensor \<^verbatim>\<open>[graph_class]\<close> is its
  one entry. The processed directory is the list of the files saved, in the order of
  the \<^verbatim>\<open>torch.save\<close> calls, each with its index \<open>ind\<close>.
\<close>

record data =
  data_x :: "float32 list list"
  data_edge_index :: "edge list"
  data_y :: nat

type_synonym files = "(nat \<times> data) list"

text \<open>\<^verbatim>\<open>generate_data\<close> (lines 118-126): \<open>i\<close> is the number of the replica.\<close>

fun generate_data_loop ::
  "nat list \<Rightarrow> edge list \<Rightarrow> float32 list list \<Rightarrow> nat \<Rightarrow> nat \<Rightarrow> files \<Rightarrow> nat \<times> files" where
  "generate_data_loop [] edges node_features label ind fs = (ind, fs)"
| "generate_data_loop (i # is) edges node_features label ind fs =
     (let d = \<lparr>data_x = node_features, data_edge_index = edges, data_y = label\<rparr>
      in generate_data_loop is edges node_features label (ind + 1) (fs @ [(ind, d)]))"

definition generate_data ::
  "circuit_dataset \<Rightarrow> edge list \<Rightarrow> float32 list list \<Rightarrow> nat \<Rightarrow> nat \<Rightarrow> files \<Rightarrow> nat \<times> files" where
  "generate_data ds edges node_features label ind fs =
     generate_data_loop [0..<num_instances ds] edges node_features label ind fs"

text \<open>
  Line 84: \<^verbatim>\<open>torch.tensor(edges, dtype = torch.long).t().contiguous()\<close>. An entry
  outside the 64-bit range is a RuntimeError. For an empty list the tensor has the one
  dimension of size 0 and \<^verbatim>\<open>.t()\<close> leaves it so; \<^verbatim>\<open>edges.size(1)\<close> is then an
  IndexError. Otherwise the tensor is \<open>2 \<times> m\<close> and \<^verbatim>\<open>edges.size(1)\<close> is \<open>m\<close>.
\<close>

definition in_int64 :: "int \<Rightarrow> bool" where
  "in_int64 k = (- (2 ^ 63) \<le> k \<and> k < 2 ^ 63)"

definition edge_tensor :: "edge list \<Rightarrow> py_error + edge list" where
  "edge_tensor edges =
     (if list_all (\<lambda>(src, dst). in_int64 src \<and> in_int64 dst) edges then Inr edges
      else Inl RuntimeError)"

definition size1 :: "edge list \<Rightarrow> py_error + nat" where
  "size1 edges = (if edges = [] then Inl IndexError else Inr (length edges))"

text \<open>
  Lines 108-112, the loop \<^verbatim>\<open>for i in range(edges.size(1) - num_remove + 1)\<close> for one
  \<^verbatim>\<open>num_remove > 0\<close>. \<^verbatim>\<open>edges[:, :i]\<close> is \<open>take i edges\<close> and
  \<^verbatim>\<open>edges[:, i + num_remove : edges.size(1)]\<close> is \<open>drop (i + num_remove) (take m edges)\<close>.
  The state is \<open>(ind, graph_class, files)\<close>.
\<close>

fun window_loop ::
  "circuit_dataset \<Rightarrow> edge list \<Rightarrow> float32 list list \<Rightarrow> nat \<Rightarrow> nat \<Rightarrow> nat list \<Rightarrow>
   nat \<times> nat \<times> files \<Rightarrow> nat \<times> nat \<times> files" where
  "window_loop ds edges node_features num_remove m [] st = st"
| "window_loop ds edges node_features num_remove m (i # is) (ind, graph_class, fs) =
     (let updated_edges = take i edges @ drop (i + num_remove) (take m edges);
          label = graph_class;
          (ind', fs') = generate_data ds updated_edges node_features label ind fs
      in window_loop ds edges node_features num_remove m is (ind', graph_class + 1, fs'))"

text \<open>
  Lines 99-112, the loop \<^verbatim>\<open>for num_remove in range(self.max_num_edge_remove + 1)\<close>.
  An exception ends the run and leaves the files saved so far.
\<close>

fun remove_loop ::
  "circuit_dataset \<Rightarrow> edge list \<Rightarrow> float32 list list \<Rightarrow> nat list \<Rightarrow>
   nat \<times> nat \<times> files \<Rightarrow> py_error option \<times> nat \<times> nat \<times> files" where
  "remove_loop ds edges node_features [] st = (None, st)"
| "remove_loop ds edges node_features (num_remove # ns) (ind, graph_class, fs) =
     (if num_remove = 0 then
        (let label = graph_class;
             (ind', fs') = generate_data ds edges node_features label ind fs
         in remove_loop ds edges node_features ns (ind', graph_class + 1, fs'))
      else
        (case size1 edges of
           Inl e \<Rightarrow> (Some e, (ind, graph_class, fs))
         | Inr m \<Rightarrow>
             remove_loop ds edges node_features ns
               (window_loop ds edges node_features num_remove m
                  [0..<nat (int m - int num_remove + 1)] (ind, graph_class, fs))))"

definition generate_datapoints ::
  "circuit_dataset \<Rightarrow> edge list \<Rightarrow> float32 list list \<Rightarrow> py_error option \<times> nat \<times> nat \<times> files" where
  "generate_datapoints ds edges node_features =
     remove_loop ds edges node_features [0..<max_num_edge_remove ds + 1] (0, 0, [])"

text \<open>
  \<^verbatim>\<open>process\<close> (lines 71-112) on the text of the edge file and the entries of the
  attribute file: the error raised, if any, and the files saved.
\<close>

definition process ::
  "circuit_dataset \<Rightarrow> string \<Rightarrow> (string \<times> attrs) list \<Rightarrow> py_error option \<times> files" where
  "process ds edge_text json_data =
     (case read_edges edge_text of
        Inl e \<Rightarrow> (Some e, [])
      | Inr edges \<Rightarrow>
          (case edge_tensor edges of
             Inl e \<Rightarrow> (Some e, [])
           | Inr edges \<Rightarrow>
               (case node_features_of json_data of
                  Inl e \<Rightarrow> (Some e, [])
                | Inr node_features \<Rightarrow>
                    (let (err, ind, graph_class, fs) =
                           generate_datapoints ds edges node_features
                     in (err, fs)))))"

text \<open>\<^verbatim>\<open>get\<close> (lines 131-133) loads the file saved last under the index \<open>ind\<close>.\<close>

definition get :: "files \<Rightarrow> nat \<Rightarrow> py_error + data" where
  "get fs ind = (case map_of (rev fs) ind of None \<Rightarrow> Inl FileNotFoundError | Some d \<Rightarrow> Inr d)"

text \<open>
  The enumeration of the variants in the words of the specification: the full edge
  list, then for each window size \<open>w\<close> from 1 to \<open>W\<close> and each offset \<open>i\<close> from 0 to
  \<open>m - w\<close> the edges before \<open>i\<close> followed by the edges from \<open>i + w\<close> on. A window size
  above \<open>m\<close> has no offset.
\<close>

definition window_variants :: "nat \<Rightarrow> edge list \<Rightarrow> edge list list" where
  "window_variants W edges =
     edges # concat (map (\<lambda>w. map (\<lambda>i. take i edges @ drop (i + w) edges)
                               [0..<length edges + 1 - w]) [1..<W + 1])"

text \<open>The samples of a sequence of variants: \<open>R\<close> copies each, labels from \<open>c\<close> on.\<close>

fun replicas :: "nat \<Rightarrow> float32 list list \<Rightarrow> nat \<Rightarrow> edge list list \<Rightarrow> data list" where
  "replicas R node_features c [] = []"
| "replicas R node_features c (es # vs) =
     replicate R \<lparr>data_x = node_features, data_edge_index = es, data_y = c\<rparr> @
     replicas R node_features (c + 1) vs"

text \<open>
  The variants of a sequence \<open>ns\<close> of values of \<^verbatim>\<open>num_remove\<close>, as the loop visits them.
\<close>

definition removal_variants :: "edge list \<Rightarrow> nat list \<Rightarrow> edge list list" where
  "removal_variants edges ns =
     concat (map (\<lambda>w. if w = 0 then [edges]
                       else map (\<lambda>i. take i edges @ drop (i + w) edges)
                              [0..<length edges + 1 - w]) ns)"


section \<open>The builder computes the first-match scan\<close>

lemma length_inner_loop: "length (inner_loop gates i j G) = length G"
  by (induction gates i j G rule: inner_loop.induct) (subst inner_loop.simps, simp)

lemma inner_loop_scan:
  "i < length G \<Longrightarrow> j \<le> length gates \<Longrightarrow>
   inner_loop gates i j G = G[i := G ! i @ first_match_scan gates i [j..<length gates]]"
proof (induction gates i j G rule: inner_loop.induct)
  case (1 gates i j G)
  show ?case
  proof (cases "j < length gates")
    case False
    then show ?thesis by (subst inner_loop.simps) simp
  next
    case True
    then have upt: "[j..<length gates] = j # [Suc j..<length gates]"
      by (simp add: upt_conv_Cons)
    show ?thesis
      using True 1 by (subst inner_loop.simps) (auto simp: upt)
  qed
qed

lemma outer_loop_scan:
  "length G = length gates \<Longrightarrow> i \<le> length gates \<Longrightarrow>
   (\<forall>k. i \<le> k \<longrightarrow> k < length gates \<longrightarrow> G ! k = []) \<Longrightarrow>
   outer_loop gates i G =
     take i G @ map (\<lambda>k. first_match_scan gates k [Suc k..<length gates]) [i..<length gates]"
proof (induction gates i G rule: outer_loop.induct)
  case (1 gates i G)
  show ?case
  proof (cases "i + 1 < length gates")
    case True
    let ?G' = "inner_loop gates i (Suc i) G"
    have G': "?G' = G[i := first_match_scan gates i [Suc i..<length gates]]"
      using True 1(2,3,4) by (simp add: inner_loop_scan)
    have "outer_loop gates i G = outer_loop gates (Suc i) ?G'"
      using True by (subst outer_loop.simps) simp
    also have "\<dots> = take (Suc i) ?G' @
        map (\<lambda>k. first_match_scan gates k [Suc k..<length gates]) [Suc i..<length gates]"
      using True 1(2,3,4) 1(1)[OF True] by (simp add: length_inner_loop G')
    also have "take (Suc i) ?G' = take i G @ [first_match_scan gates i [Suc i..<length gates]]"
      using True 1(2) by (simp add: G' take_Suc_conv_app_nth)
    finally show ?thesis using True by (simp add: upt_conv_Cons)
  next
    case False
    then have "i = length gates \<or> Suc i = length gates" using 1(3) by arith
    then show ?thesis
    proof
      assume "i = length gates"
      then show ?thesis using False 1(2) by (subst outer_loop.simps) simp
    next
      assume e: "Suc i = length gates"
      then have "G = take i G @ [G ! i]"
        using 1(2) by (metis lessI take_Suc_conv_app_nth take_all order_refl)
      moreover have "G ! i = []" using e 1(4) by simp
      ultimately have "G = take i G @ [[]]" by simp
      moreover have "[i..<length gates] = [i]" using e by (simp add: upt_conv_Cons)
      ultimately show ?thesis using False e by (subst outer_loop.simps) simp
    qed
  qed
qed

lemma create_dependency_scan:
  "create_dependency gates =
     map (\<lambda>i. first_match_scan gates i [Suc i..<length gates]) [0..<length gates]"
  unfolding create_dependency_def by (subst outer_loop_scan) simp_all

lemma create_dependency_nth:
  "i < length gates \<Longrightarrow>
   create_dependency gates ! i = first_match_scan gates i [Suc i..<length gates]"
  by (simp add: create_dependency_scan)

lemma set_first_match_scan: "set (first_match_scan gates i js) \<subseteq> set js"
  by (induction js) auto

lemma sorted_first_match_scan:
  "sorted_wrt (<) js \<Longrightarrow> sorted_wrt (<) (first_match_scan gates i js)"
proof (induction js)
  case Nil
  then show ?case by simp
next
  case (Cons j js)
  have "\<forall>k \<in> set (first_match_scan gates i js). j < k"
    using Cons.prems set_first_match_scan [of gates i js] by auto
  with Cons show ?case by simp
qed

lemma first_match_scan_one_target:
  "length (filter (\<lambda>j. snd (gates ! j) = snd (gates ! i)) (first_match_scan gates i js)) \<le> 1"
  by (induction js) auto

text \<open>
  C1 (as amended). The adjacency structure is exactly the first-match scan of every
  source \<open>i\<close> over \<open>j = i+1, \<dots>, n-1\<close> in increasing order: a \<open>j\<close> whose target is
  the target of gate \<open>i\<close> gives the edge \<open>(i, j)\<close> and ends the scan for \<open>i\<close>; otherwise
  a \<open>j\<close> whose control is the target of gate \<open>i\<close> gives the edge \<open>(i, j)\<close> and the scan
  continues; rule 1 is tested before rule 2 at each \<open>j\<close>.
\<close>

theorem create_dependency_first_match:
  "create_dependency gates =
     map (\<lambda>i. first_match_scan gates i [Suc i..<length gates]) [0..<length gates]"
  by (rule create_dependency_scan)

text \<open>
  C1 as the specification words rule 2 (target of gate \<open>j\<close> equal to the control of
  gate \<open>i\<close>) fails: for the gates (control 2, target 1), (control 0, target 2) the
  target of gate 1 is the control of gate 0 and the targets differ, yet the builder
  adds no edge, where the specification's rule gives the edge \<open>(0, 1)\<close>.
\<close>

theorem create_dependency_spec_rule_counterexample:
  "snd ([(2, 1), (0, 2)] ! 1 :: gate) = fst ([(2, 1), (0, 2)] ! 0 :: gate) \<and>
   snd ([(2, 1), (0, 2)] ! 1 :: gate) \<noteq> snd ([(2, 1), (0, 2)] ! 0 :: gate) \<and>
   create_dependency [(2, 1), (0, 2)] = [[], []] \<and>
   spec_dependency [(2, 1), (0, 2)] = [[1], []]"
  by (simp add: create_dependency_scan spec_dependency_def upt_rec)

text \<open>
  C6. For a source index \<open>i\<close> of a gate sequence of length \<open>n\<close>, every destination
  \<open>j\<close> of \<open>i\<close> satisfies \<open>i < j < n\<close> (edges point strictly forward, so there is no
  cycle), and at most one destination of \<open>i\<close> has the target of gate \<open>i\<close> as its target
  (at most one edge of the target-equals-target rule). For \<open>n \<le> 1\<close> there is no edge.
\<close>

theorem create_dependency_forward:
  assumes "i < length gates"
  shows "(\<forall>j \<in> set (create_dependency gates ! i). i < j \<and> j < length gates) \<and>
         length (filter (\<lambda>j. snd (gates ! j) = snd (gates ! i))
                   (create_dependency gates ! i)) \<le> 1 \<and>
         concat (create_dependency []) = [] \<and>
         concat (create_dependency [g]) = []"
proof -
  have "set (create_dependency gates ! i) \<subseteq> set [Suc i..<length gates]"
    using assms by (simp only: create_dependency_nth set_first_match_scan)
  then have "\<forall>j \<in> set (create_dependency gates ! i). i < j \<and> j < length gates"
    by auto
  moreover have "length (filter (\<lambda>j. snd (gates ! j) = snd (gates ! i))
                   (create_dependency gates ! i)) \<le> 1"
    using assms by (simp only: create_dependency_nth first_match_scan_one_target)
  moreover have "concat (create_dependency []) = []"
    by (simp add: create_dependency_scan)
  moreover have "concat (create_dependency [g]) = []"
    by (simp add: create_dependency_scan)
  ultimately show ?thesis by blast
qed

theorem create_dependency_forward_witness:
  "(1::nat) < length [(0, 1), (1, 2), (0, 2) :: gate] \<and>
   2 \<in> set (create_dependency [(0, 1), (1, 2), (0, 2)] ! 1) \<and>
   set (create_dependency [(0, 1), (1, 2), (0, 2)] ! 1) \<subseteq> {j. 1 < j \<and> j < 3} \<and>
   length (filter (\<lambda>j. snd ([(0, 1), (1, 2), (0, 2) :: gate] ! j) = 2)
             (create_dependency [(0, 1), (1, 2), (0, 2)] ! 1)) \<le> 1"
proof -
  have h: "(1::nat) < length [(0, 1), (1, 2), (0, 2) :: gate]" by simp
  have v: "create_dependency [(0, 1), (1, 2), (0, 2)] = [[1], [2], []]"
    by (simp add: create_dependency_scan upt_rec)
  show ?thesis
    using create_dependency_forward [OF h] unfolding v by auto
qed

text \<open>
  C10. For every source index \<open>i\<close> the list of destinations of \<open>i\<close> is strictly
  increasing, so no edge \<open>(i, j)\<close> occurs twice, also when gate \<open>j\<close> meets both
  conditions against gate \<open>i\<close>.
\<close>

theorem create_dependency_increasing:
  assumes "i < length gates"
  shows "sorted_wrt (<) (create_dependency gates ! i) \<and>
         distinct (create_dependency gates ! i)"
proof -
  have s: "sorted_wrt (<) (create_dependency gates ! i)"
    using assms by (simp add: create_dependency_nth sorted_first_match_scan)
  then have "distinct (create_dependency gates ! i)"
    by (simp add: strict_sorted_iff)
  with s show ?thesis by simp
qed

theorem create_dependency_increasing_witness:
  "(0::nat) < length [(0, 1), (1, 1), (1, 1) :: gate] \<and>
   fst ([(0, 1), (1, 1), (1, 1) :: gate] ! 1) = snd ([(0, 1), (1, 1), (1, 1) :: gate] ! 0) \<and>
   snd ([(0, 1), (1, 1), (1, 1) :: gate] ! 1) = snd ([(0, 1), (1, 1), (1, 1) :: gate] ! 0) \<and>
   create_dependency [(0, 1), (1, 1), (1, 1)] ! 0 = [1] \<and>
   sorted_wrt (<) (create_dependency [(0, 1), (1, 1), (1, 1)] ! 0) \<and>
   distinct (create_dependency [(0, 1), (1, 1), (1, 1)] ! 0)"
proof -
  have h: "(0::nat) < length [(0, 1), (1, 1), (1, 1) :: gate]" by simp
  have v: "create_dependency [(0, 1), (1, 1), (1, 1)] = [[1], [2], []]"
    by (simp add: create_dependency_scan upt_rec)
  show ?thesis
    using create_dependency_increasing [OF h] unfolding v by simp
qed


section \<open>Writing and reading the edge list\<close>

lemma of_char_digit_char: "d < 10 \<Longrightarrow> (of_char (digit_char d) :: nat) = 48 + d"
  by (simp add: digit_char_def)

lemma is_space_code: "is_space c \<Longrightarrow> (of_char c :: nat) \<le> 32"
  by (auto simp: is_space_def)

lemma is_digit_digit_char: "d < 10 \<Longrightarrow> is_digit (digit_char d)"
  by (simp add: is_digit_def of_char_digit_char)

lemma digit_val_digit_char: "d < 10 \<Longrightarrow> digit_val (digit_char d) = d"
  by (simp add: digit_val_def of_char_digit_char)

lemma is_digit_not_space: "is_digit c \<Longrightarrow> \<not> is_space c"
  using is_space_code [of c] by (auto simp: is_digit_def)

lemma is_digit_not_special:
  "is_digit c \<Longrightarrow> c \<noteq> CHR 0x0A \<and> c \<noteq> CHR ''-'' \<and> c \<noteq> CHR ''+'' \<and> c \<noteq> CHR '' ''"
  by (auto simp: is_digit_def)

lemma str_nat_digits: "\<forall>c \<in> set (str_nat n). is_digit c"
  by (induction n rule: str_nat.induct) (subst str_nat.simps, auto simp: is_digit_digit_char)

lemma str_nat_nonempty: "str_nat n \<noteq> []"
  by (subst str_nat.simps) simp

lemma int_digits_all_digits:
  "\<forall>c \<in> set ds. is_digit c \<Longrightarrow> ds \<noteq> [] \<or> prev \<Longrightarrow>
   int_digits prev acc ds = Some (foldl (\<lambda>a c. 10 * a + digit_val c) acc ds)"
  by (induction ds arbitrary: prev acc) auto

lemma foldl_str_nat: "foldl (\<lambda>a c. 10 * a + digit_val c) 0 (str_nat n) = n"
proof (induction n rule: str_nat.induct)
  case (1 n)
  show ?case
  proof (cases "n < 10")
    case True
    then show ?thesis by (subst str_nat.simps) (simp add: digit_val_digit_char)
  next
    case False
    then show ?thesis using 1
      by (subst str_nat.simps) (simp add: digit_val_digit_char)
  qed
qed

lemma dropWhile_append_keep:
  "xs \<noteq> [] \<Longrightarrow> \<not> P (hd xs) \<Longrightarrow> dropWhile P (xs @ ys) = xs @ ys"
  by (cases xs) auto

lemma py_strip_no_space:
  assumes "\<forall>c \<in> set s. \<not> is_space c"
  shows "py_strip s = s"
proof (cases s)
  case Nil
  then show ?thesis by (simp add: py_strip_def)
next
  case (Cons c cs)
  then have 1: "dropWhile is_space s = s" using assms by simp
  have "rev s \<noteq> []" using Cons by simp
  moreover have "\<not> is_space (hd (rev s))"
    using assms Cons by (metis calculation hd_in_set set_rev)
  ultimately have "dropWhile is_space (rev s) = rev s"
    using dropWhile_append_keep [of "rev s" is_space "[]"] by simp
  with 1 show ?thesis by (simp add: py_strip_def)
qed

lemma py_int_str_nat: "py_int (str_nat n) = Inr (int n)"
proof -
  have d: "\<forall>c \<in> set (str_nat n). is_digit c" by (rule str_nat_digits)
  then have s: "py_strip (str_nat n) = str_nat n"
    by (intro py_strip_no_space) (auto dest: is_digit_not_space)
  obtain c cs where cs: "str_nat n = c # cs"
    using str_nat_nonempty [of n] by (cases "str_nat n") auto
  then have "is_digit c" using d by simp
  then have c: "c \<noteq> CHR ''-''" "c \<noteq> CHR ''+''" using is_digit_not_special by blast+
  have "int_digits False 0 (c # cs) = Some n"
    using int_digits_all_digits [of "str_nat n" False 0] d cs foldl_str_nat [of n]
    by simp
  moreover have "py_strip (c # cs) = c # cs" using s cs by simp
  ultimately show ?thesis using c by (simp add: py_int_def cs del: int_digits.simps)
qed

lemma split_from_word:
  "\<forall>c \<in> set a. \<not> is_space c \<Longrightarrow> split_from cur (a @ rest) = split_from (cur @ a) rest"
  by (induction a arbitrary: cur) auto

lemma py_split_two:
  assumes "\<forall>c \<in> set a. \<not> is_space c" "\<forall>c \<in> set b. \<not> is_space c" "a \<noteq> []" "b \<noteq> []"
  shows "py_split (a @ CHR '' '' # b) = [a, b]"
proof -
  have sp: "is_space CHR '' ''" by (simp add: is_space_def)
  have "split_from [] (a @ CHR '' '' # b) = split_from a (CHR '' '' # b)"
    using split_from_word [OF assms(1), of "[]"] by simp
  also have "\<dots> = a # split_from [] b" using sp assms(3) by simp
  also have "split_from [] b = split_from b []"
    using split_from_word [OF assms(2), of "[]" "[]"] by simp
  finally show ?thesis using assms(4) by (simp add: py_split_def)
qed

lemma py_strip_line:
  assumes "\<forall>c \<in> set a. \<not> is_space c" "\<forall>c \<in> set b. \<not> is_space c" "a \<noteq> []" "b \<noteq> []"
  shows "py_strip (a @ [CHR '' ''] @ b @ [CHR 0x0A]) = a @ CHR '' '' # b"
proof -
  have nl: "is_space (CHR 0x0A)" by (simp add: is_space_def)
  have "\<not> is_space (hd a)" using assms(1,3) by simp
  then have 1: "dropWhile is_space (a @ [CHR '' ''] @ b @ [CHR 0x0A]) = a @ [CHR '' ''] @ b @ [CHR 0x0A]"
    using assms(3) by (rule dropWhile_append_keep [rotated])
  have "rev b \<noteq> []" using assms(4) by simp
  moreover have "\<not> is_space (hd (rev b))"
    using assms(2,4) by (metis calculation hd_in_set set_rev)
  ultimately have 2: "dropWhile is_space (rev b @ CHR '' '' # rev a) = rev b @ CHR '' '' # rev a"
    by (rule dropWhile_append_keep)
  show ?thesis unfolding py_strip_def 1 using nl 2 by simp
qed

lemma fields_edge_line:
  "map py_int (py_split (py_strip (edge_line u v))) = [Inr (int u), Inr (int v)]"
proof -
  have a: "\<forall>c \<in> set (str_nat u). \<not> is_space c" "\<forall>c \<in> set (str_nat v). \<not> is_space c"
    using str_nat_digits by (auto dest: is_digit_not_space)
  show ?thesis
    unfolding edge_line_def
    by (simp only: py_strip_line [OF a str_nat_nonempty str_nat_nonempty]
          py_split_two [OF a str_nat_nonempty str_nat_nonempty] list.map py_int_str_nat)
qed

lemma lines_from_line:
  "CHR 0x0A \<notin> set a \<Longrightarrow>
   lines_from cur (a @ CHR 0x0A # rest) = (cur @ a @ [CHR 0x0A]) # lines_from [] rest"
  by (induction a arbitrary: cur) auto

lemma py_lines_edge_line:
  "py_lines (edge_line u v @ rest) = edge_line u v # py_lines rest"
proof -
  have "CHR 0x0A \<notin> set (str_nat u @ [CHR '' ''] @ str_nat v)"
    using str_nat_digits [of u] str_nat_digits [of v] is_digit_not_special by auto
  from lines_from_line [OF this, of "[]" rest] show ?thesis
    by (simp add: py_lines_def edge_line_def)
qed

lemma py_lines_write_edges:
  "py_lines (write_edges es) = map (\<lambda>(u, v). edge_line u v) es"
proof (induction es)
  case Nil
  then show ?case by (simp add: write_edges_def py_lines_def)
next
  case (Cons e es)
  obtain u v where e: "e = (u, v)" by (cases e)
  have "write_edges (e # es) = edge_line u v @ write_edges es"
    by (simp add: write_edges_def e)
  then show ?case using Cons by (simp add: py_lines_edge_line e)
qed

lemma read_edges_loop_lines:
  "read_edges_loop acc (map (\<lambda>(u, v). edge_line u v) es) =
     Inr (acc @ map (\<lambda>(u, v). (int u, int v)) es)"
proof (induction es arbitrary: acc)
  case Nil
  then show ?case by simp
next
  case (Cons e es)
  obtain u v where e: "e = (u, v)" by (cases e)
  show ?case by (simp add: e fields_edge_line Cons)
qed

lemma read_write_edges:
  "read_edges (write_edges es) = Inr (map (\<lambda>(u, v). (int u, int v)) es)"
  by (simp add: read_edges_def py_lines_write_edges read_edges_loop_lines)

lemma write_edges_append: "write_edges (xs @ ys) = write_edges xs @ write_edges ys"
  by (simp add: write_edges_def)

lemma write_edges_Nil: "write_edges [] = []"
  by (simp add: write_edges_def)

lemma write_edges_source:
  "write_edges (map (\<lambda>v. (u, v)) neigh) = concat (map (\<lambda>v. edge_line u v) neigh)"
  by (simp add: write_edges_def comp_def)

lemma write_adjacency:
  "concat (map (\<lambda>(u, neigh). concat (map (\<lambda>v. edge_line u v) neigh)) ps) =
   write_edges (concat (map (\<lambda>(u, neigh). map (\<lambda>v. (u, v)) neigh) ps))"
  by (induction ps) (auto simp: write_edges_append write_edges_source write_edges_Nil)

lemma write_edgelist_pairs: "write_edgelist G = write_edges (edge_pairs G)"
  by (simp add: write_edgelist_def edge_pairs_def write_adjacency)

text \<open>
  C8. Writing an ordered edge list in the interchange format (per edge the source
  index, one space, the destination index and a line feed) and reading the text back
  gives the same edges in the same order; so does reading what the builder writes for
  an adjacency structure.
\<close>

theorem read_edges_write_edges:
  "read_edges (write_edges es) = Inr (map (\<lambda>(u, v). (int u, int v)) es) \<and>
   read_edges (write_edgelist G) = Inr (map (\<lambda>(u, v). (int u, int v)) (edge_pairs G))"
  by (simp add: write_edgelist_pairs read_write_edges)


section \<open>The files the generation saves\<close>

lemma generate_data_loop_eq:
  "generate_data_loop is es nf lbl ind fs =
     (ind + length is,
      fs @ map (\<lambda>k. (ind + k, \<lparr>data_x = nf, data_edge_index = es, data_y = lbl\<rparr>))
             [0..<length is])"
proof (induction "is" arbitrary: ind fs)
  case Nil
  then show ?case by simp
next
  case (Cons i "is")
  have "[0..<Suc (length is)] = 0 # map Suc [0..<length is]"
    by (simp add: upt_conv_Cons map_Suc_upt del: upt_Suc)
  then show ?case by (simp add: Cons comp_def del: upt_Suc)
qed

lemma generate_data_eq:
  "generate_data ds es nf lbl ind fs =
     (ind + num_instances ds,
      fs @ map (\<lambda>k. (ind + k, \<lparr>data_x = nf, data_edge_index = es, data_y = lbl\<rparr>))
             [0..<num_instances ds])"
  by (simp add: generate_data_def generate_data_loop_eq)

lemma zip_upt_replicate:
  "zip [ind..<ind + R] (replicate R d) = map (\<lambda>k. (ind + k, d)) [0..<R]"
  by (rule nth_equalityI) simp_all

lemma length_replicas: "length (replicas R nf c vs) = R * length vs"
  by (induction vs arbitrary: c) simp_all

lemma replicas_append:
  "replicas R nf c (vs @ ws) = replicas R nf c vs @ replicas R nf (c + length vs) ws"
  by (induction vs arbitrary: c) simp_all

lemma zip_upt_append:
  "length xs = k \<Longrightarrow>
   zip [ind..<ind + (k + l)] (xs @ ys) = zip [ind..<ind + k] xs @ zip [ind + k..<ind + k + l] ys"
proof -
  assume k: "length xs = k"
  have "[ind..<ind + (k + l)] = [ind..<ind + k] @ [ind + k..<ind + k + l]"
    using upt_add_eq_append [of ind "ind + k" l] by (simp add: add.assoc)
  then show ?thesis using k by simp
qed

lemma window_loop_eq:
  "window_loop ds edges nf w (length edges) is (ind, gc, fs) =
     (ind + num_instances ds * length is, gc + length is,
      fs @ zip [ind..<ind + num_instances ds * length is]
             (replicas (num_instances ds) nf gc
                (map (\<lambda>i. take i edges @ drop (i + w) edges) is)))"
proof (induction "is" arbitrary: ind gc fs)
  case Nil
  then show ?case by simp
next
  case (Cons i "is")
  let ?R = "num_instances ds"
  let ?d = "\<lparr>data_x = nf, data_edge_index = take i edges @ drop (i + w) edges, data_y = gc\<rparr>"
  let ?rest = "replicas ?R nf (gc + 1) (map (\<lambda>i. take i edges @ drop (i + w) edges) is)"
  have z: "zip [ind..<ind + (?R + ?R * length is)] (replicate ?R ?d @ ?rest) =
           map (\<lambda>k. (ind + k, ?d)) [0..<?R] @ zip [ind + ?R..<ind + ?R + ?R * length is] ?rest"
    using zip_upt_append [of "replicate ?R ?d" ?R ind "?R * length is" ?rest]
    by (simp add: zip_upt_replicate)
  show ?case
    using z by (simp add: generate_data_eq Cons add.assoc)
qed

lemma remove_loop_eq:
  assumes "edges \<noteq> []"
  shows "remove_loop ds edges nf ns (ind, gc, fs) =
     (None, ind + num_instances ds * length (removal_variants edges ns),
      gc + length (removal_variants edges ns),
      fs @ zip [ind..<ind + num_instances ds * length (removal_variants edges ns)]
             (replicas (num_instances ds) nf gc (removal_variants edges ns)))"
proof (induction ns arbitrary: ind gc fs)
  case Nil
  then show ?case by (simp add: removal_variants_def)
next
  case (Cons w ns)
  let ?R = "num_instances ds"
  let ?V = "removal_variants edges ns"
  show ?case
  proof (cases "w = 0")
    case True
    let ?d = "\<lparr>data_x = nf, data_edge_index = edges, data_y = gc\<rparr>"
    have v: "removal_variants edges (0 # ns) = edges # ?V"
      by (simp add: removal_variants_def)
    have z: "zip [ind..<ind + (?R + ?R * length ?V)] (replicate ?R ?d @ replicas ?R nf (gc + 1) ?V) =
           map (\<lambda>k. (ind + k, ?d)) [0..<?R] @
           zip [ind + ?R..<ind + ?R + ?R * length ?V] (replicas ?R nf (gc + 1) ?V)"
      using zip_upt_append [of "replicate ?R ?d" ?R ind "?R * length ?V"]
      by (simp add: zip_upt_replicate)
    show ?thesis
      using True z by (simp add: v generate_data_eq Cons add.assoc)
  next
    case False
    let ?is = "[0..<length edges + 1 - w]"
    let ?U = "map (\<lambda>i. take i edges @ drop (i + w) edges) ?is"
    have n: "nat (int (length edges) - int w + 1) = length edges + 1 - w" by arith
    have v: "removal_variants edges (w # ns) = ?U @ ?V"
      using False by (simp add: removal_variants_def)
    have lU: "length ?U = length edges + 1 - w" by simp
    have z: "zip [ind..<ind + (?R * length ?U + ?R * length ?V)]
               (replicas ?R nf gc ?U @ replicas ?R nf (gc + length ?U) ?V) =
             zip [ind..<ind + ?R * length ?U] (replicas ?R nf gc ?U) @
             zip [ind + ?R * length ?U..<ind + ?R * length ?U + ?R * length ?V]
               (replicas ?R nf (gc + length ?U) ?V)"
      by (rule zip_upt_append) (simp add: length_replicas)
    have "remove_loop ds edges nf (w # ns) (ind, gc, fs) =
          remove_loop ds edges nf ns (window_loop ds edges nf w (length edges) ?is (ind, gc, fs))"
      using False assms by (simp add: size1_def n)
    also have "\<dots> = remove_loop ds edges nf ns
        (ind + ?R * length ?U, gc + length ?U,
         fs @ zip [ind..<ind + ?R * length ?U] (replicas ?R nf gc ?U))"
      by (simp only: window_loop_eq length_map)
    also have "\<dots> = (None, ind + ?R * length ?U + ?R * length ?V, gc + length ?U + length ?V,
         (fs @ zip [ind..<ind + ?R * length ?U] (replicas ?R nf gc ?U)) @
         zip [ind + ?R * length ?U..<ind + ?R * length ?U + ?R * length ?V]
               (replicas ?R nf (gc + length ?U) ?V))"
      by (rule Cons)
    finally show ?thesis
      unfolding v replicas_append length_append using z
      by (simp add: add.assoc distrib_left)
  qed
qed

lemma removal_variants_window:
  "removal_variants edges [0..<W + 1] = window_variants W edges"
proof -
  let ?F = "\<lambda>w. if w = 0 then [edges]
                 else map (\<lambda>i. take i edges @ drop (i + w) edges) [0..<length edges + 1 - w]"
  let ?G = "\<lambda>w. map (\<lambda>i. take i edges @ drop (i + w) edges) [0..<length edges + 1 - w]"
  have c: "[0..<W + 1] = 0 # [1..<W + 1]" by (simp add: upt_conv_Cons del: upt_Suc)
  have m: "map ?F [1..<W + 1] = map ?G [1..<W + 1]"
    by (rule map_cong) auto
  have "removal_variants edges [0..<W + 1] = concat (map ?F (0 # [1..<W + 1]))"
    unfolding removal_variants_def c ..
  also have "\<dots> = edges # concat (map ?F [1..<W + 1])" by simp
  also have "\<dots> = edges # concat (map ?G [1..<W + 1])" unfolding m ..
  finally show ?thesis unfolding window_variants_def .
qed

lemma generate_datapoints_eq:
  assumes "edges \<noteq> []"
  shows "generate_datapoints ds edges nf =
     (None, num_instances ds * length (window_variants (max_num_edge_remove ds) edges),
      length (window_variants (max_num_edge_remove ds) edges),
      zip [0..<num_instances ds * length (window_variants (max_num_edge_remove ds) edges)]
        (replicas (num_instances ds) nf 0 (window_variants (max_num_edge_remove ds) edges)))"
  unfolding generate_datapoints_def remove_loop_eq [OF assms] removal_variants_window
  by simp


section \<open>Counts, positions and features of the saved samples\<close>

lemma foldl_add_sum_list:
  "foldl (\<lambda>t i. t + f i) a xs = a + sum_list (map f xs)" for a :: int
  by (induction xs arbitrary: a) simp_all

lemma sum_list_upt_atMost:
  "sum_list (map f [1..<W + 1]) = (\<Sum>w = 1..W. f w)" for f :: "nat \<Rightarrow> 'a::comm_monoid_add"
proof -
  have "set [1..<W + 1] = {1..W}" by auto
  then show ?thesis
    by (simp only: interv_sum_list_conv_sum_set_nat)
qed

lemma total_eq:
  "total ds = int (num_instances ds) *
     (1 + (\<Sum>w = 1..max_num_edge_remove ds. int (num_edges ds) - int w + 1))"
proof -
  have "total ds = int (num_instances ds) +
      sum_list (map (\<lambda>i. (int (num_edges ds) - int i + 1) * int (num_instances ds))
                  [1..<max_num_edge_remove ds + 1])"
    unfolding total_def by (rule foldl_add_sum_list)
  also have "sum_list (map (\<lambda>i. (int (num_edges ds) - int i + 1) * int (num_instances ds))
                  [1..<max_num_edge_remove ds + 1]) =
      (\<Sum>w = 1..max_num_edge_remove ds. (int (num_edges ds) - int w + 1) * int (num_instances ds))"
    by (rule sum_list_upt_atMost)
  also have "\<dots> = (\<Sum>w = 1..max_num_edge_remove ds. int (num_edges ds) - int w + 1) *
                     int (num_instances ds)"
    by (simp add: sum_distrib_right)
  finally show ?thesis by (simp add: algebra_simps)
qed

lemma length_window_variants:
  "length (window_variants W edges) = 1 + (\<Sum>w = 1..W. length edges + 1 - w)"
proof -
  have "length (window_variants W edges) =
          1 + sum_list (map (\<lambda>w. length edges + 1 - w) [1..<W + 1])"
    by (simp add: window_variants_def length_concat comp_def del: upt_Suc)
  then show ?thesis by (simp only: sum_list_upt_atMost)
qed

lemma length_window_variants_int:
  assumes "W \<le> length edges + 1"
  shows "int (length (window_variants W edges)) =
     1 + (\<Sum>w = 1..W. int (length edges) - int w + 1)"
proof -
  have "int (\<Sum>w = 1..W. length edges + 1 - w) = (\<Sum>w = 1..W. int (length edges + 1 - w))"
    by simp
  also have "\<dots> = (\<Sum>w = 1..W. int (length edges) - int w + 1)"
    using assms by (intro sum.cong) auto
  finally show ?thesis by (simp add: length_window_variants)
qed

lemma nth_replicas:
  "v < length vs \<Longrightarrow> r < R \<Longrightarrow>
   replicas R nf c vs ! (v * R + r) = \<lparr>data_x = nf, data_edge_index = vs ! v, data_y = c + v\<rparr>"
proof (induction vs arbitrary: c v)
  case Nil
  then show ?case by simp
next
  case (Cons es vs)
  show ?case
  proof (cases v)
    case 0
    then show ?thesis using Cons.prems by (simp add: nth_append)
  next
    case (Suc u)
    then have "replicas R nf c (es # vs) ! (v * R + r) = replicas R nf (c + 1) vs ! (u * R + r)"
      by (simp add: nth_append)
    then show ?thesis using Cons.IH [of u "c + 1"] Cons.prems Suc by simp
  qed
qed

lemma get_zip_upt:
  assumes "p < length xs"
  shows "get (zip [0..<length xs] xs) p = Inr (xs ! p)"
proof -
  let ?fs = "zip [0..<length xs] xs"
  have "distinct (map fst (rev ?fs))" by (simp add: rev_map [symmetric])
  moreover have "?fs ! p = (p, xs ! p)" using assms by simp
  then have "(p, xs ! p) \<in> set (rev ?fs)"
    using assms nth_mem [of p ?fs] by simp
  ultimately have "map_of (rev ?fs) p = Some (xs ! p)" by simp
  then show ?thesis by (simp add: get_def)
qed

lemma window_loop_x:
  "\<forall>(p, d) \<in> set fs. data_x d = nf \<Longrightarrow>
   \<forall>(p, d) \<in> set (snd (snd (window_loop ds edges nf w m is (ind, gc, fs)))). data_x d = nf"
proof (induction "is" arbitrary: ind gc fs)
  case Nil
  then show ?case by simp
next
  case (Cons i "is")
  show ?case
    using Cons.prems by (simp add: generate_data_eq) (rule Cons.IH, auto)
qed

lemma remove_loop_x:
  "\<forall>(p, d) \<in> set fs. data_x d = nf \<Longrightarrow>
   \<forall>(p, d) \<in> set (snd (snd (snd (remove_loop ds edges nf ns (ind, gc, fs))))). data_x d = nf"
proof (induction ns arbitrary: ind gc fs)
  case Nil
  then show ?case by simp
next
  case (Cons w ns)
  show ?case
  proof (cases "w = 0")
    case True
    then show ?thesis
      using Cons.prems by (simp add: generate_data_eq) (rule Cons.IH, auto)
  next
    case False
    show ?thesis
    proof (cases "size1 edges")
      case (Inl e)
      then show ?thesis using False Cons.prems by simp
    next
      case (Inr m)
      obtain ind' gc' fs' where
        w: "window_loop ds edges nf w m [0..<nat (int m - int w + 1)] (ind, gc, fs) = (ind', gc', fs')"
        by (metis prod_cases3)
      have "\<forall>(p, d) \<in> set fs'. data_x d = nf"
        using window_loop_x [OF Cons.prems, of ds edges w m "[0..<nat (int m - int w + 1)]" ind gc]
        by (simp add: w)
      then show ?thesis using False Inr by (simp add: w Cons.IH)
    qed
  qed
qed

lemma process_x:
  assumes "(p, d) \<in> set (snd (process ds edge_text json_data))"
  shows "node_features_of json_data = Inr (data_x d)"
proof (cases "read_edges edge_text")
  case (Inl e)
  then show ?thesis using assms by (simp add: process_def)
next
  case (Inr edges)
  show ?thesis
  proof (cases "edge_tensor edges")
    case (Inl e)
    then show ?thesis using assms Inr by (simp add: process_def)
  next
    case r: (Inr t)
    show ?thesis
    proof (cases "node_features_of json_data")
      case (Inl e)
      then show ?thesis using assms Inr r by (simp add: process_def)
    next
      case n: (Inr nf)
      have "\<forall>(p, d) \<in> set (snd (snd (snd (generate_datapoints ds t nf)))). data_x d = nf"
        unfolding generate_datapoints_def by (rule remove_loop_x) simp
      then show ?thesis
        using assms Inr r n by (auto simp: process_def split: prod.splits)
    qed
  qed
qed

lemma node_features_loop_retag:
  "node_features_loop acc (map (\<lambda>(node_id, a). (node_id, a\<lparr>gate := tag node_id\<rparr>)) json_data) =
     node_features_loop acc json_data"
  by (induction json_data arbitrary: acc) (auto split: sum.splits)

lemma node_features_of_retag:
  "node_features_of (map (\<lambda>(node_id, a). (node_id, a\<lparr>gate := tag node_id\<rparr>)) json_data) =
     node_features_of json_data"
  unfolding node_features_of_def by (simp only: node_features_loop_retag)

lemma process_retag:
  "process ds edge_text (map (\<lambda>(node_id, a). (node_id, a\<lparr>gate := tag node_id\<rparr>)) json_data) =
     process ds edge_text json_data"
  unfolding process_def by (simp only: node_features_of_retag)

lemma files_eq:
  assumes "edges \<noteq> []"
  shows "snd (snd (snd (generate_datapoints ds edges nf))) =
     zip [0..<length (replicas (num_instances ds) nf 0
                        (window_variants (max_num_edge_remove ds) edges))]
       (replicas (num_instances ds) nf 0 (window_variants (max_num_edge_remove ds) edges))"
  by (simp add: generate_datapoints_eq [OF assms] length_replicas)

lemma get_position:
  assumes "edges \<noteq> []" "v < length (window_variants (max_num_edge_remove ds) edges)"
    "r < num_instances ds"
  shows "get (snd (snd (snd (generate_datapoints ds edges nf)))) (v * num_instances ds + r) =
     Inr \<lparr>data_x = nf,
          data_edge_index = window_variants (max_num_edge_remove ds) edges ! v, data_y = v\<rparr>"
proof -
  let ?R = "num_instances ds"
  let ?V = "window_variants (max_num_edge_remove ds) edges"
  have "v * ?R + r < ?R * length ?V"
  proof -
    have "v * ?R + r < v * ?R + ?R" using assms(3) by simp
    also have "\<dots> = ?R * Suc v" by simp
    also have "\<dots> \<le> ?R * length ?V" using assms(2) by (intro mult_le_mono2) simp
    finally show ?thesis .
  qed
  then have "v * ?R + r < length (replicas ?R nf 0 ?V)" by (simp add: length_replicas)
  then show ?thesis
    unfolding files_eq [OF assms(1)]
    by (simp only: get_zip_upt nth_replicas [OF assms(2,3)] add_0)
qed

lemma window_variants_0: "window_variants W edges ! 0 = edges"
  by (simp add: window_variants_def)

lemma window_variants_1:
  assumes "edges \<noteq> []" "1 \<le> W"
  shows "1 < length (window_variants W edges) \<and> window_variants W edges ! 1 = drop 1 edges"
proof -
  have a: "[1..<W + 1] = 1 # [Suc 1..<W + 1]"
    using assms(2) by (intro upt_conv_Cons) simp
  have b: "[0..<length edges] = 0 # [Suc 0..<length edges]"
    using assms(1) by (intro upt_conv_Cons) simp
  show ?thesis
    unfolding window_variants_def a by (simp add: b)
qed

text \<open>
  C5. For a non-empty base edge list, a window bound of at least 1 and 10 replicas per
  variant, the saved files carry the dense zero-based positions \<open>0, 1, 2, \<dots>\<close> in the
  order of generation: position \<open>v * 10 + r\<close> holds replica \<open>r\<close> of the \<open>v\<close>-th
  variant (full graph first, then increasing window size, then increasing offset). So
  positions 0 and 9 load the full graph with label 0 (its replicas 0 and 9) and position
  10 loads the variant of window size 1 at offset 0, with label 1 (its replica 0).
\<close>

theorem position_resolution:
  assumes "edges \<noteq> []" "1 \<le> max_num_edge_remove ds" "num_instances ds = 10"
  shows "map fst (snd (snd (snd (generate_datapoints ds edges nf)))) =
           [0..<length (snd (snd (snd (generate_datapoints ds edges nf))))] \<and>
         get (snd (snd (snd (generate_datapoints ds edges nf)))) 0 =
           Inr \<lparr>data_x = nf, data_edge_index = edges, data_y = 0\<rparr> \<and>
         get (snd (snd (snd (generate_datapoints ds edges nf)))) 9 =
           Inr \<lparr>data_x = nf, data_edge_index = edges, data_y = 0\<rparr> \<and>
         get (snd (snd (snd (generate_datapoints ds edges nf)))) 10 =
           Inr \<lparr>data_x = nf, data_edge_index = take 0 edges @ drop (0 + 1) edges, data_y = 1\<rparr> \<and>
         (v < length (window_variants (max_num_edge_remove ds) edges) \<and> r < 10 \<longrightarrow>
          get (snd (snd (snd (generate_datapoints ds edges nf)))) (v * 10 + r) =
            Inr \<lparr>data_x = nf,
                 data_edge_index = window_variants (max_num_edge_remove ds) edges ! v,
                 data_y = v\<rparr>)"
proof -
  let ?fs = "snd (snd (snd (generate_datapoints ds edges nf)))"
  let ?V = "window_variants (max_num_edge_remove ds) edges"
  have V1: "1 < length ?V" "?V ! 1 = drop 1 edges"
    using window_variants_1 [OF assms(1,2)] by simp_all
  have V0: "0 < length ?V" by (simp add: window_variants_def)
  have g: "get ?fs (v * 10 + r) = Inr \<lparr>data_x = nf, data_edge_index = ?V ! v, data_y = v\<rparr>"
    if "v < length ?V" "r < 10" for v r
    using get_position [OF assms(1) that(1), of r nf] that(2) assms(3) by simp
  have 1: "map fst ?fs = [0..<length ?fs]"
    unfolding files_eq [OF assms(1)] by simp
  have 2: "get ?fs 0 = Inr \<lparr>data_x = nf, data_edge_index = edges, data_y = 0\<rparr>"
    using g [OF V0, of 0] by (simp add: window_variants_0)
  have 3: "get ?fs 9 = Inr \<lparr>data_x = nf, data_edge_index = edges, data_y = 0\<rparr>"
    using g [OF V0, of 9] by (simp add: window_variants_0)
  have 4: "get ?fs 10 =
      Inr \<lparr>data_x = nf, data_edge_index = take 0 edges @ drop (0 + 1) edges, data_y = 1\<rparr>"
    using g [OF V1(1), of 0] V1(2) by simp
  have 5: "v < length ?V \<and> r < 10 \<longrightarrow>
      get ?fs (v * 10 + r) = Inr \<lparr>data_x = nf, data_edge_index = ?V ! v, data_y = v\<rparr>"
    using g [of v r] by simp
  show ?thesis using 1 2 3 4 5 by (intro conjI)
qed

theorem position_resolution_witness:
  "[(0, 1), (1, 2)] \<noteq> ([] :: edge list) \<and>
   1 \<le> max_num_edge_remove (init ''0 1\<newline>1 2\<newline>'') \<and>
   num_instances (init ''0 1\<newline>1 2\<newline>'') = 10 \<and>
   2 < length (window_variants (max_num_edge_remove (init ''0 1\<newline>1 2\<newline>'')) [(0, 1), (1, 2)]) \<and>
   (3 :: nat) < 10 \<and>
   get (snd (snd (snd (generate_datapoints (init ''0 1\<newline>1 2\<newline>'') [(0, 1), (1, 2)] [])))) 10 =
     Inr \<lparr>data_x = [], data_edge_index = [(1, 2)], data_y = 1\<rparr> \<and>
   get (snd (snd (snd (generate_datapoints (init ''0 1\<newline>1 2\<newline>'') [(0, 1), (1, 2)] [])))) 23 =
     Inr \<lparr>data_x = [], data_edge_index = [(0, 1)], data_y = 2\<rparr>"
proof -
  have i: "init ''0 1\<newline>1 2\<newline>'' = \<lparr>max_num_edge_remove = 2, num_instances = 10, num_edges = 2\<rparr>"
    by code_simp
  have v: "window_variants 2 [(0, 1), (1, 2) :: edge] =
      [[(0, 1), (1, 2)], [(1, 2)], [(0, 1)], []]"
    by (simp add: window_variants_def upt_rec)
  have h1: "[(0, 1), (1, 2)] \<noteq> ([] :: edge list)" by simp
  have h2: "1 \<le> max_num_edge_remove (init ''0 1\<newline>1 2\<newline>'')" by (simp add: i)
  have h3: "num_instances (init ''0 1\<newline>1 2\<newline>'') = 10" by (simp add: i)
  show ?thesis
    using position_resolution [OF h1 h2 h3, of "[]" 2 3] by (simp add: i v)
qed

text \<open>
  On a non-empty base edge list of \<open>m\<close> edges with a window bound \<open>W \<le> m + 1\<close> the
  generation ends without an error and saves \<open>R * (1 + (\<Sum>w = 1..W. m - w + 1))\<close>
  samples, the number of processed file names for \<open>m\<close> counted edges; and the \<open>R\<close>
  samples that one call of \<^verbatim>\<open>generate_data\<close> saves are one and the same value, at the
  consecutive positions \<open>ind, \<dots>, ind + R - 1\<close>.
\<close>

lemma generate_datapoints_count:
  assumes "edges \<noteq> []" "max_num_edge_remove ds \<le> length edges + 1"
  shows "fst (generate_datapoints ds edges nf) = None \<and>
         int (length (snd (snd (snd (generate_datapoints ds edges nf))))) =
           int (num_instances ds) *
             (1 + (\<Sum>w = 1..max_num_edge_remove ds. int (length edges) - int w + 1)) \<and>
         len (ds\<lparr>num_edges := length edges\<rparr>) =
           length (snd (snd (snd (generate_datapoints ds edges nf)))) \<and>
         generate_data ds es nf label ind fs =
           (ind + num_instances ds,
            fs @ map (\<lambda>i. (ind + i, \<lparr>data_x = nf, data_edge_index = es, data_y = label\<rparr>))
                   [0..<num_instances ds])"
proof -
  let ?fs = "snd (snd (snd (generate_datapoints ds edges nf)))"
  let ?S = "1 + (\<Sum>w = 1..max_num_edge_remove ds. int (length edges) - int w + 1)"
  have 1: "fst (generate_datapoints ds edges nf) = None"
    by (simp add: generate_datapoints_eq [OF assms(1)])
  have "length ?fs = num_instances ds * length (window_variants (max_num_edge_remove ds) edges)"
    by (simp add: generate_datapoints_eq [OF assms(1)] length_replicas)
  then have 2: "int (length ?fs) = int (num_instances ds) * ?S"
    by (simp add: length_window_variants_int [OF assms(2)])
  have "total (ds\<lparr>num_edges := length edges\<rparr>) = int (num_instances ds) * ?S"
    by (simp add: total_eq)
  then have 3: "len (ds\<lparr>num_edges := length edges\<rparr>) = length ?fs"
    using 2 by (simp add: len_def processed_file_names_def)
  show ?thesis using 1 2 3 by (intro conjI) (simp_all only: generate_data_eq)
qed

text \<open>
  C4 at an empty edge file (\<open>m = 0\<close>, with the constructor's \<open>W = 2\<close> and \<open>R = 10\<close>):
  \<^verbatim>\<open>process\<close> saves 10 samples, the replicas of the full graph, all one value, and
  then raises an IndexError, while the count of the claim, which is the number of
  processed file names, is \<open>10 * (1 + (0 - 1 + 1) + (0 - 2 + 1)) = 0\<close>. So the number of
  persisted samples is not the count.
\<close>

theorem empty_edge_file_persisted_count:
  "fst (process (init []) [] [(''0'', \<lparr>gate = ''cx'', qubit_1 = 0, qubit_2 = 1\<rparr>)]) =
     Some IndexError \<and>
   length (snd (process (init []) [] [(''0'', \<lparr>gate = ''cx'', qubit_1 = 0, qubit_2 = 1\<rparr>)])) = 10 \<and>
   map snd (snd (process (init []) [] [(''0'', \<lparr>gate = ''cx'', qubit_1 = 0, qubit_2 = 1\<rparr>)])) =
     replicate 10 \<lparr>data_x = [[Finite 1, Finite 0, Finite 1]], data_edge_index = [], data_y = 0\<rparr> \<and>
   int (num_instances (init [])) *
     (1 + (\<Sum>w = 1..max_num_edge_remove (init []). int (num_edges (init [])) - int w + 1)) = 0 \<and>
   length (processed_file_names (init [])) = 0 \<and>
   int (length (snd (process (init []) [] [(''0'', \<lparr>gate = ''cx'', qubit_1 = 0, qubit_2 = 1\<rparr>)]))) \<noteq>
     int (num_instances (init [])) *
       (1 + (\<Sum>w = 1..max_num_edge_remove (init []). int (num_edges (init [])) - int w + 1))"
  by code_simp

text \<open>
  C9. Every sample that \<^verbatim>\<open>process\<close> saves carries the node features computed once from
  the attribute file, so any two saved samples have equal node features, whichever
  edge window was removed.
\<close>

theorem node_features_shared:
  assumes "(p, d) \<in> set (snd (process ds edge_text json_data))"
    and "(p', d') \<in> set (snd (process ds edge_text json_data))"
  shows "node_features_of json_data = Inr (data_x d) \<and> data_x d' = data_x d"
  using process_x [OF assms(1)] process_x [OF assms(2)] by simp

theorem node_features_shared_witness:
  "(0, \<lparr>data_x = [[Finite 1, Finite 0, Finite 1], [Finite 1, Finite 1, Finite 2]], data_edge_index = [(0, 1)], data_y = 0\<rparr>) \<in>
     set (snd (process (init ''0 1\<newline>'') ''0 1\<newline>''
          [(''0'', \<lparr>gate = ''cx'', qubit_1 = 0, qubit_2 = 1\<rparr>),
           (''1'', \<lparr>gate = ''cx'', qubit_1 = 1, qubit_2 = 2\<rparr>)])) \<and>
   (10, \<lparr>data_x = [[Finite 1, Finite 0, Finite 1], [Finite 1, Finite 1, Finite 2]], data_edge_index = [], data_y = 1\<rparr>) \<in>
     set (snd (process (init ''0 1\<newline>'') ''0 1\<newline>''
          [(''0'', \<lparr>gate = ''cx'', qubit_1 = 0, qubit_2 = 1\<rparr>),
           (''1'', \<lparr>gate = ''cx'', qubit_1 = 1, qubit_2 = 2\<rparr>)])) \<and>
   node_features_of [(''0'', \<lparr>gate = ''cx'', qubit_1 = 0, qubit_2 = 1\<rparr>),
           (''1'', \<lparr>gate = ''cx'', qubit_1 = 1, qubit_2 = 2\<rparr>)] =
     Inr (data_x \<lparr>data_x = [[Finite 1, Finite 0, Finite 1], [Finite 1, Finite 1, Finite 2]],
                  data_edge_index = [(0, 1)], data_y = 0\<rparr>) \<and>
   data_x \<lparr>data_x = [[Finite 1, Finite 0, Finite 1], [Finite 1, Finite 1, Finite 2]], data_edge_index = [], data_y = 1\<rparr> =
     data_x \<lparr>data_x = [[Finite 1, Finite 0, Finite 1], [Finite 1, Finite 1, Finite 2]], data_edge_index = [(0, 1)], data_y = 0\<rparr>"
proof -
  let ?fs = "snd (process (init ''0 1\<newline>'') ''0 1\<newline>''
          [(''0'', \<lparr>gate = ''cx'', qubit_1 = 0, qubit_2 = 1\<rparr>),
           (''1'', \<lparr>gate = ''cx'', qubit_1 = 1, qubit_2 = 2\<rparr>)])"
  have m1: "(0, \<lparr>data_x = [[Finite 1, Finite 0, Finite 1], [Finite 1, Finite 1, Finite 2]], data_edge_index = [(0, 1)], data_y = 0\<rparr>) \<in> set ?fs"
    by code_simp
  have m2: "(10, \<lparr>data_x = [[Finite 1, Finite 0, Finite 1], [Finite 1, Finite 1, Finite 2]], data_edge_index = [], data_y = 1\<rparr>) \<in> set ?fs"
    by code_simp
  show ?thesis
    using node_features_shared [OF m1 m2] m1 m2 by simp
qed

text \<open>
  C7 (as amended). A gate-type tag outside the known vocabulary does not make the build
  fail: replacing the gate-type tags of the attribute file by arbitrary ones leaves
  unchanged whether the build raises an error, and which.
\<close>

theorem gate_tag_never_fails:
  "fst (process ds edge_text
          (map (\<lambda>(node_id, a). (node_id, a\<lparr>gate := tag node_id\<rparr>)) json_data)) =
     fst (process ds edge_text json_data)"
  by (simp only: process_retag)

text \<open>
  C7 as stated fails: with a gate of the unknown type \<^verbatim>\<open>unknown\<close> in the attribute file
  the build raises no error, and the row of that gate has the same gate feature 1 as
  the row of a \<^verbatim>\<open>cx\<close> gate.
\<close>

theorem unknown_gate_counterexample:
  "fst (process (init ''0 1\<newline>'') ''0 1\<newline>''
          [(''0'', \<lparr>gate = ''cx'', qubit_1 = 0, qubit_2 = 1\<rparr>),
           (''1'', \<lparr>gate = ''unknown'', qubit_1 = 1, qubit_2 = 2\<rparr>)]) = None \<and>
   node_features_of
          [(''0'', \<lparr>gate = ''cx'', qubit_1 = 0, qubit_2 = 1\<rparr>),
           (''1'', \<lparr>gate = ''unknown'', qubit_1 = 1, qubit_2 = 2\<rparr>)] =
     Inr [[Finite 1, Finite 0, Finite 1], [Finite 1, Finite 1, Finite 2]]"
  by code_simp

text \<open>
  C2. For four base edges \<open>e0, e1, e2, e3\<close> and a window bound of 2 the generation ends
  without an error after exactly 8 variants, each saved \<open>R\<close> times: the full list
  (label 0), the four lists with one edge removed at offsets 0 to 3 (labels 1 to 4) and
  the three lists with two adjacent edges removed at offsets 0 to 2 (labels 5 to 7), in
  this order. The number of processed file names is \<open>8 * R\<close> as well.
\<close>

theorem four_edges_eight_variants:
  "generate_datapoints (ds\<lparr>max_num_edge_remove := 2\<rparr>) [e0, e1, e2, e3] nf =
     (None, num_instances ds * 8, 8,
      zip [0..<num_instances ds * 8]
        (replicate (num_instances ds) \<lparr>data_x = nf, data_edge_index = [e0, e1, e2, e3], data_y = 0\<rparr> @
         replicate (num_instances ds) \<lparr>data_x = nf, data_edge_index = [e1, e2, e3], data_y = 1\<rparr> @
         replicate (num_instances ds) \<lparr>data_x = nf, data_edge_index = [e0, e2, e3], data_y = 2\<rparr> @
         replicate (num_instances ds) \<lparr>data_x = nf, data_edge_index = [e0, e1, e3], data_y = 3\<rparr> @
         replicate (num_instances ds) \<lparr>data_x = nf, data_edge_index = [e0, e1, e2], data_y = 4\<rparr> @
         replicate (num_instances ds) \<lparr>data_x = nf, data_edge_index = [e2, e3], data_y = 5\<rparr> @
         replicate (num_instances ds) \<lparr>data_x = nf, data_edge_index = [e0, e3], data_y = 6\<rparr> @
         replicate (num_instances ds) \<lparr>data_x = nf, data_edge_index = [e0, e1], data_y = 7\<rparr>)) \<and>
   len (ds\<lparr>max_num_edge_remove := 2, num_edges := 4\<rparr>) = num_instances ds * 8"
proof -
  have v: "window_variants 2 [e0, e1, e2, e3] =
      [[e0, e1, e2, e3], [e1, e2, e3], [e0, e2, e3], [e0, e1, e3], [e0, e1, e2],
       [e2, e3], [e0, e3], [e0, e1]]"
    by (simp add: window_variants_def upt_rec)
  have "total (ds\<lparr>max_num_edge_remove := 2, num_edges := 4\<rparr>) = int (num_instances ds) * 8"
    by (simp add: total_def upt_rec)
  then have "len (ds\<lparr>max_num_edge_remove := 2, num_edges := 4\<rparr>) = num_instances ds * 8"
    by (simp add: len_def processed_file_names_def nat_mult_distrib)
  moreover have "generate_datapoints (ds\<lparr>max_num_edge_remove := 2\<rparr>) [e0, e1, e2, e3] nf =
      (None, num_instances ds * 8, 8,
       zip [0..<num_instances ds * 8] (replicas (num_instances ds) nf 0
         [[e0, e1, e2, e3], [e1, e2, e3], [e0, e2, e3], [e0, e1, e3], [e0, e1, e2],
          [e2, e3], [e0, e3], [e0, e1]]))"
  proof -
    let ?ds = "ds\<lparr>max_num_edge_remove := 2\<rparr>"
    have sel: "max_num_edge_remove ?ds = 2" "num_instances ?ds = num_instances ds"
      by simp_all
    have l: "length [[e0, e1, e2, e3], [e1, e2, e3], [e0, e2, e3], [e0, e1, e3], [e0, e1, e2],
          [e2, e3], [e0, e3], [e0, e1]] = 8" by simp
    have "[e0, e1, e2, e3] \<noteq> []" by simp
    from generate_datapoints_eq [OF this, of ?ds nf] show ?thesis
      unfolding sel v l .
  qed
  moreover have "replicas (num_instances ds) nf 0
         [[e0, e1, e2, e3], [e1, e2, e3], [e0, e2, e3], [e0, e1, e3], [e0, e1, e2],
          [e2, e3], [e0, e3], [e0, e1]] =
      replicate (num_instances ds) \<lparr>data_x = nf, data_edge_index = [e0, e1, e2, e3], data_y = 0\<rparr> @
      replicate (num_instances ds) \<lparr>data_x = nf, data_edge_index = [e1, e2, e3], data_y = 1\<rparr> @
      replicate (num_instances ds) \<lparr>data_x = nf, data_edge_index = [e0, e2, e3], data_y = 2\<rparr> @
      replicate (num_instances ds) \<lparr>data_x = nf, data_edge_index = [e0, e1, e3], data_y = 3\<rparr> @
      replicate (num_instances ds) \<lparr>data_x = nf, data_edge_index = [e0, e1, e2], data_y = 4\<rparr> @
      replicate (num_instances ds) \<lparr>data_x = nf, data_edge_index = [e2, e3], data_y = 5\<rparr> @
      replicate (num_instances ds) \<lparr>data_x = nf, data_edge_index = [e0, e3], data_y = 6\<rparr> @
      replicate (num_instances ds) \<lparr>data_x = nf, data_edge_index = [e0, e1], data_y = 7\<rparr>"
    by simp
  ultimately show ?thesis by (simp only:)
qed

text \<open>
  C3 at an empty edge file, which the builder writes for a circuit with one two-qubit
  gate: here \<open>m = 0\<close> and the constructor's window bound is 2. The count of processed
  file names includes the term \<open>(0 - 2 + 1) * 10 = -10\<close> for the window size 2 and comes
  to 0, while \<^verbatim>\<open>process\<close> saves the 10 replicas of the full graph and then stops
  with an IndexError at \<^verbatim>\<open>edges.size(1)\<close>.
\<close>

theorem empty_edge_file_mismatch:
  "write_edgelist (create_dependency [(0, 1)]) = [] \<and>
   total (init []) = 0 \<and>
   len (init []) = 0 \<and>
   (int (num_edges (init [])) - 2 + 1) * int (num_instances (init [])) = - 10 \<and>
   process (init []) [] [(''0'', \<lparr>gate = ''cx'', qubit_1 = 0, qubit_2 = 1\<rparr>)] =
     (Some IndexError,
      zip [0..<10]
        (replicate 10
           \<lparr>data_x = [[Finite 1, Finite 0, Finite 1]], data_edge_index = [], data_y = 0\<rparr>))"
  by code_simp

end
